theory Spec2Isabelle
  imports Complex_Main
begin

section \<open>float64 values\<close>

text \<open>
  A Go \<open>float64\<close> is modelled by its IEEE-754 value class: not-a-number, the two
  infinities, or a finite value, which is carried as the real number it denotes. The two
  zeros are one value \<open>Fin 0\<close> (they compare equal in Go). Comparisons follow IEEE-754:
  every ordered comparison with \<open>NaN\<close> is false and \<open>==\<close> is false on \<open>NaN\<close>.
  Arithmetic on finite values is exact real arithmetic (rounding to 53 bits and overflow
  are not modelled); the special values follow IEEE-754, a zero divisor counting as \<open>+0\<close>.
\<close>

datatype f64 = NaN | NInf | Fin real | PInf

fun flt :: "f64 \<Rightarrow> f64 \<Rightarrow> bool" where
  "flt NaN y = False"
| "flt x NaN = False"
| "flt PInf y = False"
| "flt x NInf = False"
| "flt NInf y = True"
| "flt x PInf = True"
| "flt (Fin a) (Fin b) = (a < b)"

definition fgt :: "f64 \<Rightarrow> f64 \<Rightarrow> bool" where
  "fgt x y = flt y x"

fun feq :: "f64 \<Rightarrow> f64 \<Rightarrow> bool" where
  "feq NaN y = False"
| "feq x NaN = False"
| "feq x y = (x = y)"

definition fne :: "f64 \<Rightarrow> f64 \<Rightarrow> bool" where
  "fne x y = (\<not> feq x y)"

definition fle :: "f64 \<Rightarrow> f64 \<Rightarrow> bool" where
  "fle x y = (flt x y \<or> feq x y)"

definition fge :: "f64 \<Rightarrow> f64 \<Rightarrow> bool" where
  "fge x y = fle y x"

fun fneg :: "f64 \<Rightarrow> f64" where
  "fneg NaN = NaN"
| "fneg NInf = PInf"
| "fneg PInf = NInf"
| "fneg (Fin a) = Fin (- a)"

fun fadd :: "f64 \<Rightarrow> f64 \<Rightarrow> f64" where
  "fadd NaN y = NaN"
| "fadd x NaN = NaN"
| "fadd PInf NInf = NaN"
| "fadd NInf PInf = NaN"
| "fadd PInf y = PInf"
| "fadd x PInf = PInf"
| "fadd NInf y = NInf"
| "fadd x NInf = NInf"
| "fadd (Fin a) (Fin b) = Fin (a + b)"

definition fsub :: "f64 \<Rightarrow> f64 \<Rightarrow> f64" where
  "fsub x y = fadd x (fneg y)"

text \<open>The sign class of a value: \<open>-1\<close>, \<open>0\<close> or \<open>1\<close> (\<open>NaN\<close> is never asked).\<close>

fun fsign :: "f64 \<Rightarrow> int" where
  "fsign NaN = 0"
| "fsign NInf = - 1"
| "fsign PInf = 1"
| "fsign (Fin a) = (if a < 0 then - 1 else if a = 0 then 0 else 1)"

definition finf :: "int \<Rightarrow> f64" where
  "finf s = (if s < 0 then NInf else if s = 0 then NaN else PInf)"

fun fmul :: "f64 \<Rightarrow> f64 \<Rightarrow> f64" where
  "fmul NaN y = NaN"
| "fmul x NaN = NaN"
| "fmul (Fin a) (Fin b) = Fin (a * b)"
| "fmul x y = finf (fsign x * fsign y)"

fun fdiv :: "f64 \<Rightarrow> f64 \<Rightarrow> f64" where
  "fdiv NaN y = NaN"
| "fdiv x NaN = NaN"
| "fdiv (Fin a) (Fin b) = (if b = 0 then finf (fsign (Fin a)) else Fin (a / b))"
| "fdiv (Fin a) y = Fin 0"
| "fdiv x (Fin b) = finf (fsign x * (if b < 0 then - 1 else 1))"
| "fdiv x y = NaN"

text \<open>\<open>math.Exp\<close> and \<open>math.Log\<close> with their special cases.\<close>

fun fexp :: "f64 \<Rightarrow> f64" where
  "fexp NaN = NaN"
| "fexp NInf = Fin 0"
| "fexp PInf = PInf"
| "fexp (Fin a) = Fin (exp a)"

fun flog :: "f64 \<Rightarrow> f64" where
  "flog NaN = NaN"
| "flog NInf = NaN"
| "flog PInf = PInf"
| "flog (Fin a) = (if a < 0 then NaN else if a = 0 then NInf else Fin (ln a))"

text \<open>
  \<open>math.Round\<close>: the nearest integer, halves away from zero; \<open>NaN\<close> and the infinities
  are returned as they are.
\<close>

definition round_half_away :: "real \<Rightarrow> int" where
  "round_half_away r = (if r < 0 then - \<lfloor>- r + 1 / 2\<rfloor> else \<lfloor>r + 1 / 2\<rfloor>)"

fun math_Round :: "f64 \<Rightarrow> f64" where
  "math_Round (Fin a) = Fin (of_int (round_half_away a))"
| "math_Round x = x"

section \<open>External collaborators\<close>

text \<open>
  The distributions of \<open>gonum/stat/distuv\<close>, as the structs the code builds. Their
  log-density and their random variate generation are not part of the repository: they
  are parameters of the model, as are the random source behind \<open>*rand.Rand\<close> (a state
  of type \<open>'s\<close> that every draw advances), the \<open>%f\<close> verb of \<open>fmt.Sprintf\<close> and the
  conversion \<open>int(x)\<close> of a non-finite float, which Go leaves to the implementation.
\<close>

datatype dist =
    distuv_Normal f64 f64
  | distuv_Beta f64 f64
  | distuv_Bernoulli f64
  | distuv_Binomial f64 f64
  | distuv_Uniform f64 f64

record 's ext =
  dist_LogProb :: "dist \<Rightarrow> f64 \<Rightarrow> f64"
  dist_Rand :: "dist \<Rightarrow> 's \<Rightarrow> f64 \<times> 's"
  Sprintf_f :: "f64 \<Rightarrow> string"
  NewSource :: "nat \<Rightarrow> 's"
  int_nonfinite :: "f64 \<Rightarrow> int"

section \<open>Nodes\<close>

text \<open>
  Every \<open>log.Panicf\<close>, \<open>panic\<close> and run-time panic of the source is a value of \<open>error\<close>.
\<close>

datatype error =
    LogitDomain f64
  | UnknownVariable string
  | ProposalLength nat nat
  | NameTaken string
  | TraceMissing string
  | ZeroTrials f64
  | IndexOutOfRange int
  | MakeSliceLen int

text \<open>The only error \<open>SetValue\<close> returns, with its message.\<close>

datatype OutOfBoundsErr = OutOfBoundsErr string

text \<open>
  A \<open>Var\<close> is anything with a \<open>Value()\<close>: a constant, a gate over other \<open>Var\<close>s, or a
  random-variable node. The gates never change after construction, so a gate is the tree
  of its inputs; a random-variable node is mutable and shared, so it is referred to by its
  address (\<open>RandRef\<close>) in the memory of nodes.
\<close>

datatype var =
    Constant f64
  | SumGate var var
  | ProdGate var var
  | LogisticGate var
  | LogitGate var
  | SwitchGate f64 var var var
  | RandRef nat

text \<open>
  The four random-variable structs, fields in the order of the source: name, value, then
  the parameters (\<open>N\<close> before \<open>P\<close> for the binomial). The \<open>Src\<close> field is the model's one
  random source, kept in the model.
\<close>

datatype randvar =
    Normal string f64 var var
  | Beta string f64 var var
  | Bernoulli string f64 var
  | Binomial string f64 f64 var

type_synonym memory = "nat \<Rightarrow> randvar"

fun Name :: "randvar \<Rightarrow> string" where
  "Name (Normal name v mu sigma) = name"
| "Name (Beta name v alpha beta) = name"
| "Name (Bernoulli name v p) = name"
| "Name (Binomial name v N p) = name"

fun RandVar_Value :: "randvar \<Rightarrow> f64" where
  "RandVar_Value (Normal name v mu sigma) = v"
| "RandVar_Value (Beta name v alpha beta) = v"
| "RandVar_Value (Bernoulli name v p) = v"
| "RandVar_Value (Binomial name v N p) = v"

fun Value :: "memory \<Rightarrow> var \<Rightarrow> error + f64" where
  "Value h (Constant c) = Inr c"
| "Value h (SumGate X Y) =
     (case Value h X of Inl e \<Rightarrow> Inl e | Inr x \<Rightarrow>
      (case Value h Y of Inl e \<Rightarrow> Inl e | Inr y \<Rightarrow> Inr (fadd x y)))"
| "Value h (ProdGate X Y) =
     (case Value h X of Inl e \<Rightarrow> Inl e | Inr x \<Rightarrow>
      (case Value h Y of Inl e \<Rightarrow> Inl e | Inr y \<Rightarrow> Inr (fmul x y)))"
| "Value h (LogisticGate X) =
     (case Value h X of Inl e \<Rightarrow> Inl e | Inr v \<Rightarrow>
        if fge v (Fin 0) then (let z = fexp (fneg v) in Inr (fdiv (Fin 1) (fadd (Fin 1) z)))
        else (let z = fexp v in Inr (fdiv z (fadd (Fin 1) z))))"
| "Value h (LogitGate X) =
     (case Value h X of Inl e \<Rightarrow> Inl e | Inr v \<Rightarrow>
        if flt v (Fin 0) \<or> fgt v (Fin 1) then Inl (LogitDomain v)
        else Inr (flog (fdiv (Fin 1) (fsub (Fin 1) v))))"
| "Value h (SwitchGate threshold switch left right) =
     (case Value h switch of Inl e \<Rightarrow> Inl e | Inr t \<Rightarrow>
        if fle t threshold then Value h left else Value h right)"
| "Value h (RandRef a) = Inr (RandVar_Value (h a))"

text \<open>The constructors; two of them read a parameter's value for the default value.\<close>

definition NewNormal :: "memory \<Rightarrow> string \<Rightarrow> var \<Rightarrow> var \<Rightarrow> error + randvar" where
  "NewNormal h name mu sigma =
     (case Value h mu of Inl e \<Rightarrow> Inl e | Inr defaultValue \<Rightarrow>
        Inr (Normal name defaultValue mu sigma))"

definition NewBeta :: "string \<Rightarrow> var \<Rightarrow> var \<Rightarrow> randvar" where
  "NewBeta name alpha beta = Beta name (Fin (1 / 2)) alpha beta"

definition NewBernoulli :: "string \<Rightarrow> var \<Rightarrow> randvar" where
  "NewBernoulli name p = Bernoulli name (Fin 0) p"

definition NewBinomial :: "memory \<Rightarrow> string \<Rightarrow> f64 \<Rightarrow> var \<Rightarrow> error + randvar" where
  "NewBinomial h name N p =
     (case Value h p of Inl e \<Rightarrow> Inl e | Inr pv \<Rightarrow>
        Inr (Binomial name (fmul N pv) N p))"

text \<open>
  \<open>SetValue\<close> returns the error (\<open>None\<close> is Go's \<open>nil\<close>) and the node after the call.
\<close>

fun SetValue :: "('s, 'x) ext_scheme \<Rightarrow> randvar \<Rightarrow> f64 \<Rightarrow> OutOfBoundsErr option \<times> randvar" where
  "SetValue ext (Normal name v mu sigma) newValue = (None, Normal name newValue mu sigma)"
| "SetValue ext (Beta name v alpha beta) newValue =
     (if flt newValue (Fin 0) \<or> fgt newValue (Fin 1)
      then (Some (OutOfBoundsErr (''Beta is defined on [0,1], got value '' @ Sprintf_f ext newValue)),
            Beta name v alpha beta)
      else (None, Beta name newValue alpha beta))"
| "SetValue ext (Bernoulli name v p) newValue =
     (let roundedVal = math_Round newValue in
      if fne roundedVal (Fin 0) \<and> fne roundedVal (Fin 1)
      then (Some (OutOfBoundsErr ''A bernoulli-distributed random  variable can only take the values 0 or 1.''),
            Bernoulli name v p)
      else (None, Bernoulli name newValue p))"
| "SetValue ext (Binomial name v N p) newValue =
     (let roundedVal = math_Round newValue in
      if flt roundedVal (Fin 0) \<or> fgt roundedVal N
      then (Some (OutOfBoundsErr ''A binomial-distributed random variable can only take the integers between 0 and N as values.''),
            Binomial name v N p)
      else (None, Binomial name newValue N p))"

text \<open>The distribution a node builds from the current values of its parameters.\<close>

fun node_dist :: "memory \<Rightarrow> randvar \<Rightarrow> error + dist" where
  "node_dist h (Normal name v mu sigma) =
     (case Value h mu of Inl e \<Rightarrow> Inl e | Inr m \<Rightarrow>
      (case Value h sigma of Inl e \<Rightarrow> Inl e | Inr s \<Rightarrow> Inr (distuv_Normal m s)))"
| "node_dist h (Beta name v alpha beta) =
     (case Value h alpha of Inl e \<Rightarrow> Inl e | Inr a \<Rightarrow>
      (case Value h beta of Inl e \<Rightarrow> Inl e | Inr b \<Rightarrow> Inr (distuv_Beta a b)))"
| "node_dist h (Bernoulli name v p) =
     (case Value h p of Inl e \<Rightarrow> Inl e | Inr pv \<Rightarrow> Inr (distuv_Bernoulli pv))"
| "node_dist h (Binomial name v N p) =
     (case Value h p of Inl e \<Rightarrow> Inl e | Inr pv \<Rightarrow> Inr (distuv_Binomial N pv))"

definition LogProb :: "('s, 'x) ext_scheme \<Rightarrow> memory \<Rightarrow> randvar \<Rightarrow> error + f64" where
  "LogProb ext h n =
     (case node_dist h n of Inl e \<Rightarrow> Inl e | Inr d \<Rightarrow> Inr (dist_LogProb ext d (RandVar_Value n)))"


section \<open>The model\<close>

text \<open>
  The model holds pointers to its nodes: \<open>observed\<close> and \<open>stochastic\<close> are lists of
  addresses into \<open>nodes\<close>, the memory the random-variable structs live in, and \<open>fresh\<close> is
  the next address the allocator hands out. \<open>deterministic\<close> is the registry of constants
  and gates; \<open>Src\<close> is the state of the shared random source.
\<close>

record 's Model =
  nodes :: memory
  fresh :: nat
  deterministic :: "var list"
  observed :: "nat list"
  stochastic :: "nat list"
  Src :: 's

text \<open>What an address holds before a factory has allocated it; no collection points there.\<close>

definition unallocated :: randvar where
  "unallocated = Normal [] NaN (Constant NaN) (Constant NaN)"

definition NewModel :: "('s, 'x) ext_scheme \<Rightarrow> 's Model" where
  "NewModel ext =
     \<lparr>nodes = (\<lambda>a. unallocated), fresh = 0, deterministic = [], observed = [],
      stochastic = [], Src = NewSource ext 8128\<rparr>"

fun IsTaken_in :: "memory \<Rightarrow> nat list \<Rightarrow> string \<Rightarrow> bool" where
  "IsTaken_in h [] name = False"
| "IsTaken_in h (a # as) name = (if Name (h a) = name then True else IsTaken_in h as name)"

definition IsTaken :: "'s Model \<Rightarrow> string \<Rightarrow> bool" where
  "IsTaken m name =
     (if IsTaken_in (nodes m) (stochastic m) name then True
      else IsTaken_in (nodes m) (observed m) name)"

text \<open>
  Appending a new node to \<open>stochastic\<close>: the node is stored at a fresh address, which is
  the pointer the factory returns.
\<close>

definition add_stochastic :: "'s Model \<Rightarrow> randvar \<Rightarrow> nat \<times> 's Model" where
  "add_stochastic m n =
     (let a = fresh m in
      (a, m\<lparr>nodes := (nodes m)(a := n), fresh := Suc a, stochastic := stochastic m @ [a]\<rparr>))"

definition Model_Normal :: "'s Model \<Rightarrow> string \<Rightarrow> var \<Rightarrow> var \<Rightarrow> error + nat \<times> 's Model" where
  "Model_Normal m name mu sigma =
     (case NewNormal (nodes m) name mu sigma of Inl e \<Rightarrow> Inl e | Inr newNormal \<Rightarrow>
        if IsTaken m name then Inl (NameTaken name) else Inr (add_stochastic m newNormal))"

definition Model_Beta :: "'s Model \<Rightarrow> string \<Rightarrow> var \<Rightarrow> var \<Rightarrow> error + nat \<times> 's Model" where
  "Model_Beta m name alpha beta =
     (let newBeta = NewBeta name alpha beta in
      if IsTaken m name then Inl (NameTaken name) else Inr (add_stochastic m newBeta))"

definition Model_Bernoulli :: "'s Model \<Rightarrow> string \<Rightarrow> var \<Rightarrow> error + nat \<times> 's Model" where
  "Model_Bernoulli m name p =
     (let newBernoulli = NewBernoulli name p in
      if IsTaken m name then Inl (NameTaken name) else Inr (add_stochastic m newBernoulli))"

definition Model_Binomial :: "'s Model \<Rightarrow> string \<Rightarrow> f64 \<Rightarrow> var \<Rightarrow> error + nat \<times> 's Model" where
  "Model_Binomial m name N p =
     (if feq N (Fin 0) then Inl (ZeroTrials N)
      else (case NewBinomial (nodes m) name N p of Inl e \<Rightarrow> Inl e | Inr newBinomial \<Rightarrow>
        if IsTaken m name then Inl (NameTaken name) else Inr (add_stochastic m newBinomial)))"

definition add_deterministic :: "'s Model \<Rightarrow> var \<Rightarrow> var \<times> 's Model" where
  "add_deterministic m t = (t, m\<lparr>deterministic := deterministic m @ [t]\<rparr>)"

definition Model_Constant :: "'s Model \<Rightarrow> f64 \<Rightarrow> var \<times> 's Model" where
  "Model_Constant m c = add_deterministic m (Constant c)"

definition Model_Sum :: "'s Model \<Rightarrow> var \<Rightarrow> var \<Rightarrow> var \<times> 's Model" where
  "Model_Sum m x y = add_deterministic m (SumGate x y)"

definition Model_Prod :: "'s Model \<Rightarrow> var \<Rightarrow> var \<Rightarrow> var \<times> 's Model" where
  "Model_Prod m x y = add_deterministic m (ProdGate x y)"

definition Model_Logistic :: "'s Model \<Rightarrow> var \<Rightarrow> var \<times> 's Model" where
  "Model_Logistic m x = add_deterministic m (LogisticGate x)"

definition Model_Logit :: "'s Model \<Rightarrow> var \<Rightarrow> var \<times> 's Model" where
  "Model_Logit m x = add_deterministic m (LogitGate x)"

definition Model_Switch :: "'s Model \<Rightarrow> f64 \<Rightarrow> var \<Rightarrow> var \<Rightarrow> var \<Rightarrow> var \<times> 's Model" where
  "Model_Switch m threshold sw l r = add_deterministic m (SwitchGate threshold sw l r)"

text \<open>
  \<open>Observe\<close>: the loop returns the first index whose node has the name of \<open>variable\<close>
  (only the name of the argument is read); the node of the model found there is moved and
  set, and the error of \<open>SetValue\<close> is dropped.
\<close>

fun Observe_loop :: "string \<Rightarrow> memory \<Rightarrow> nat list \<Rightarrow> nat \<Rightarrow> nat option" where
  "Observe_loop vname h [] i = None"
| "Observe_loop vname h (a # as) i =
     (if vname = Name (h a) then Some i else Observe_loop vname h as (Suc i))"

definition Observe :: "('s, 'x) ext_scheme \<Rightarrow> 's Model \<Rightarrow> randvar \<Rightarrow> f64 \<Rightarrow> error + 's Model" where
  "Observe ext m variable val =
     (case Observe_loop (Name variable) (nodes m) (stochastic m) 0 of
        None \<Rightarrow> Inl (UnknownVariable (Name variable))
      | Some i \<Rightarrow>
          (let model_var = stochastic m ! i in
           Inr (m\<lparr>stochastic := take i (stochastic m) @ drop (Suc i) (stochastic m),
                  observed := observed m @ [model_var],
                  nodes := (nodes m)(model_var := snd (SetValue ext (nodes m model_var) val))\<rparr>)))"

text \<open>
  \<open>Model.LogProb\<close>. The first loop assigns the proposals in order and stops at the first
  \<open>OutOfBoundsErr\<close> (the flag is \<open>True\<close> then); the lengths are equal when it runs. No
  \<open>SetValue\<close> of the four node types returns another error, so the \<open>panic\<close> after the type
  assertion has no branch here. The second and third loop add the nodes' log-probabilities to
  \<open>logprob\<close>, which starts at 0.
\<close>

fun LogProb_assign ::
  "('s, 'x) ext_scheme \<Rightarrow> memory \<Rightarrow> nat list \<Rightarrow> f64 list \<Rightarrow> memory \<times> bool" where
  "LogProb_assign ext h (a # as) (v # vs) =
     (case SetValue ext (h a) v of
        (Some err, n) \<Rightarrow> (h(a := n), True)
      | (None, n) \<Rightarrow> LogProb_assign ext (h(a := n)) as vs)"
| "LogProb_assign ext h as vs = (h, False)"

fun LogProb_sum ::
  "('s, 'x) ext_scheme \<Rightarrow> memory \<Rightarrow> nat list \<Rightarrow> f64 \<Rightarrow> error + f64" where
  "LogProb_sum ext h [] logprob = Inr logprob"
| "LogProb_sum ext h (a # as) logprob =
     (case LogProb ext h (h a) of Inl e \<Rightarrow> Inl e
      | Inr lp \<Rightarrow> LogProb_sum ext h as (fadd logprob lp))"

definition Model_LogProb ::
  "('s, 'x) ext_scheme \<Rightarrow> 's Model \<Rightarrow> f64 list \<Rightarrow> error + f64 \<times> 's Model" where
  "Model_LogProb ext m proposed =
     (if length proposed \<noteq> length (stochastic m)
      then Inl (ProposalLength (length (stochastic m)) (length proposed))
      else (case LogProb_assign ext (nodes m) (stochastic m) proposed of
          (h, True) \<Rightarrow> Inr (NInf, m\<lparr>nodes := h\<rparr>)
        | (h, False) \<Rightarrow>
            (case LogProb_sum ext h (stochastic m) (Fin 0) of Inl e \<Rightarrow> Inl e | Inr logprob \<Rightarrow>
             (case LogProb_sum ext h (observed m) logprob of Inl e \<Rightarrow> Inl e | Inr logprob' \<Rightarrow>
                Inr (logprob', m\<lparr>nodes := h\<rparr>)))))"

section \<open>Sampling\<close>

text \<open>
  \<open>Model.Sample\<close> and \<open>NewMetropolisHastingsSampler\<close> hand the model to the
  Metropolis-Hastings sampler of \<open>gonum\<close>, which calls \<open>Model.LogProb\<close>; they are not part
  of this development.

  A trace is Go's \<open>map[string][]float64\<close>. \<open>make_samples\<close> is the loop that allocates one
  slice of \<open>numSamples\<close> zeros per observed name; \<open>make\<close> panics on a negative length.
\<close>

type_synonym trace = "string \<Rightarrow> f64 list option"







fun float_to_int :: "('s, 'x) ext_scheme \<Rightarrow> f64 \<Rightarrow> int" where
  "float_to_int ext (Fin a) = (if a < 0 then \<lceil>a\<rceil> else \<lfloor>a\<rfloor>)"
| "float_to_int ext x = int_nonfinite ext x"

definition index_sampler :: "f64 \<Rightarrow> dist" where
  "index_sampler traceSize = distuv_Uniform (Fin 0) (fsub traceSize (Fin 1))"

definition draw_loc :: "('s, 'x) ext_scheme \<Rightarrow> f64 \<Rightarrow> int" where
  "draw_loc ext d = float_to_int ext (math_Round d)"

fun Posterior_assign ::
  "('s, 'x) ext_scheme \<Rightarrow> trace \<Rightarrow> int \<Rightarrow> nat list \<Rightarrow> memory \<Rightarrow> error + memory" where
  "Posterior_assign ext tr loc [] h = Inr h"
| "Posterior_assign ext tr loc (v # vs) h =
     (let name = Name (h v) in
      case tr name of None \<Rightarrow> Inl (IndexOutOfRange loc)
      | Some xs \<Rightarrow>
          if 0 \<le> loc \<and> loc < int (length xs)
          then Posterior_assign ext tr loc vs (h(v := snd (SetValue ext (h v) (xs ! nat loc))))
          else Inl (IndexOutOfRange loc))"



section \<open>Declaration sequences\<close>

text \<open>
  A program that builds a model is a sequence of calls of the factories and of \<open>Observe\<close>.
  A factory's arguments are \<open>Var\<close>s built from what earlier calls returned; \<open>Observe\<close> is
  given the pointer an earlier factory returned.
\<close>

datatype decl =
    Decl_Normal string var var
  | Decl_Beta string var var
  | Decl_Bernoulli string var
  | Decl_Binomial string f64 var
  | Decl_Constant f64
  | Decl_Sum var var
  | Decl_Prod var var
  | Decl_Logistic var
  | Decl_Logit var
  | Decl_Switch f64 var var var
  | Decl_Observe nat f64

fun run_decl :: "('s, 'x) ext_scheme \<Rightarrow> decl \<Rightarrow> 's Model \<Rightarrow> error + 's Model" where
  "run_decl ext (Decl_Normal name mu sigma) m = map_sum id snd (Model_Normal m name mu sigma)"
| "run_decl ext (Decl_Beta name alpha beta) m = map_sum id snd (Model_Beta m name alpha beta)"
| "run_decl ext (Decl_Bernoulli name p) m = map_sum id snd (Model_Bernoulli m name p)"
| "run_decl ext (Decl_Binomial name N p) m = map_sum id snd (Model_Binomial m name N p)"
| "run_decl ext (Decl_Constant c) m = Inr (snd (Model_Constant m c))"
| "run_decl ext (Decl_Sum x y) m = Inr (snd (Model_Sum m x y))"
| "run_decl ext (Decl_Prod x y) m = Inr (snd (Model_Prod m x y))"
| "run_decl ext (Decl_Logistic x) m = Inr (snd (Model_Logistic m x))"
| "run_decl ext (Decl_Logit x) m = Inr (snd (Model_Logit m x))"
| "run_decl ext (Decl_Switch t sw l r) m = Inr (snd (Model_Switch m t sw l r))"
| "run_decl ext (Decl_Observe a v) m = Observe ext m (nodes m a) v"

fun build :: "('s, 'x) ext_scheme \<Rightarrow> decl list \<Rightarrow> 's Model \<Rightarrow> error + 's Model" where
  "build ext [] m = Inr m"
| "build ext (d # ds) m =
     (case run_decl ext d m of Inl e \<Rightarrow> Inl e | Inr m' \<Rightarrow> build ext ds m')"

section \<open>Notions used to state the properties\<close>

text \<open>
  Assigning the values \<open>vs\<close> to the nodes at the addresses \<open>as\<close>, one after the other from
  the left, each through \<open>SetValue\<close>.
\<close>

fun assign_in_order ::
  "('s, 'x) ext_scheme \<Rightarrow> memory \<Rightarrow> nat list \<Rightarrow> f64 list \<Rightarrow> memory" where
  "assign_in_order ext h (a # as) (v # vs) =
     assign_in_order ext (h(a := snd (SetValue ext (h a) v))) as vs"
| "assign_in_order ext h as vs = h"

text \<open>
  The one panic of \<open>Value()\<close> is the Logit gate's: a \<open>Var\<close> without Logit gates can always be
  read, and so can the parameters of a node that \<open>reads_ok\<close>.
\<close>

fun no_Logit :: "var \<Rightarrow> bool" where
  "no_Logit (Constant c) = True"
| "no_Logit (SumGate X Y) = (no_Logit X \<and> no_Logit Y)"
| "no_Logit (ProdGate X Y) = (no_Logit X \<and> no_Logit Y)"
| "no_Logit (LogisticGate X) = no_Logit X"
| "no_Logit (LogitGate X) = False"
| "no_Logit (SwitchGate t sw l r) = (no_Logit sw \<and> no_Logit l \<and> no_Logit r)"
| "no_Logit (RandRef a) = True"

fun reads_ok :: "randvar \<Rightarrow> bool" where
  "reads_ok (Normal name v mu sigma) = (no_Logit mu \<and> no_Logit sigma)"
| "reads_ok (Beta name v alpha beta) = (no_Logit alpha \<and> no_Logit beta)"
| "reads_ok (Bernoulli name v p) = no_Logit p"
| "reads_ok (Binomial name v N p) = no_Logit p"

text \<open>
  \<open>SetValue\<close> changes the value field of a node and nothing else: two memories have the
  \<open>same_shape\<close> when they hold the same nodes up to the values.
\<close>

fun with_value :: "randvar \<Rightarrow> f64 \<Rightarrow> randvar" where
  "with_value (Normal name v mu sigma) x = Normal name x mu sigma"
| "with_value (Beta name v alpha beta) x = Beta name x alpha beta"
| "with_value (Bernoulli name v p) x = Bernoulli name x p"
| "with_value (Binomial name v N p) x = Binomial name x N p"







text \<open>
  The invariant of the registry: the names of the stochastic and observed nodes are pairwise
  different, and the allocator has not yet handed out an address above the ones in use.
\<close>

definition names_unique :: "'s Model \<Rightarrow> bool" where
  "names_unique m = distinct (map (\<lambda>a. Name (nodes m a)) (stochastic m @ observed m))"

definition wf_model :: "'s Model \<Rightarrow> bool" where
  "wf_model m = (names_unique m \<and> list_all (\<lambda>a. a < fresh m) (stochastic m @ observed m))"

text \<open>
  A small concrete environment for running the model on examples: a counter as random
  source, a draw from a uniform distribution its lower bound, every other draw a quarter of
  the counter, and \<open>- x\<^sup>2\<close> as every log-density.
\<close>

definition demo_ext :: "nat ext" where
  "demo_ext =
     \<lparr>dist_LogProb = (\<lambda>d x. fneg (fmul x x)),
      dist_Rand = (\<lambda>d s. (case d of distuv_Uniform lo hi \<Rightarrow> lo | _ \<Rightarrow> Fin (real s / 4), Suc s)),
      Sprintf_f = (\<lambda>x. ''<f>''),
      NewSource = (\<lambda>seed. seed),
      int_nonfinite = (\<lambda>x. 0)\<rparr>"

text \<open>
  A model built through the factories, used for the examples: \<open>mu\<close> is normal, \<open>theta\<close> is
  Beta, \<open>heads\<close> is Binomial with 10 trials and success probability \<open>theta\<close>, and \<open>heads\<close>
  is observed to be 7.
\<close>

definition demo_decls :: "decl list" where
  "demo_decls =
     [Decl_Normal ''mu'' (Constant (Fin 0)) (Constant (Fin 1)),
      Decl_Beta ''theta'' (Constant (Fin 1)) (Constant (Fin 1)),
      Decl_Binomial ''heads'' (Fin 10) (RandRef 1),
      Decl_Observe 2 (Fin 7)]"

definition demo_model :: "nat Model" where
  "demo_model =
     \<lparr>nodes = (\<lambda>a. unallocated)
        (0 := Normal ''mu'' (Fin 0) (Constant (Fin 0)) (Constant (Fin 1)),
         1 := Beta ''theta'' (Fin (1 / 2)) (Constant (Fin 1)) (Constant (Fin 1)),
         2 := Binomial ''heads'' (Fin 7) (Fin 10) (RandRef 1)),
      fresh = 3, deterministic = [], observed = [2], stochastic = [0, 1], Src = 8128\<rparr>"

text \<open>
  A second example, for the sampling procedures. In the environment a draw is a function of
  the distribution: the lower bound of a uniform distribution, \<open>mu\<close> plus \<open>sigma\<close> times the
  counter for a normal one, \<open>N * p\<close> for a binomial one. In the model \<open>mu\<close> is normal, \<open>k\<close> is
  Binomial with the trial count \<open>-1\<close>, which rejects every value but \<open>NaN\<close>, and the observed
  \<open>y\<close> is normal with mean \<open>mu\<close> and deviation \<open>k\<close>.
\<close>

definition drift_ext :: "nat ext" where
  "drift_ext =
     \<lparr>dist_LogProb = (\<lambda>d x. fneg (fmul x x)),
      dist_Rand = (\<lambda>d s.
        (case d of distuv_Uniform lo hi \<Rightarrow> lo
         | distuv_Normal mu sigma \<Rightarrow> fadd mu (fmul sigma (Fin (real s)))
         | distuv_Binomial N p \<Rightarrow> fmul N p
         | _ \<Rightarrow> Fin (1 / 2), Suc s)),
      Sprintf_f = (\<lambda>x. ''<f>''),
      NewSource = (\<lambda>seed. 1),
      int_nonfinite = (\<lambda>x. 0)\<rparr>"

definition drift_decls :: "decl list" where
  "drift_decls =
     [Decl_Normal ''mu'' (Constant (Fin 0)) (Constant (Fin 1)),
      Decl_Binomial ''k'' (Fin (- 1)) (Constant (Fin (1 / 2))),
      Decl_Normal ''y'' (RandRef 0) (RandRef 1),
      Decl_Observe 2 (Fin 1)]"

definition drift_model :: "nat Model" where
  "drift_model =
     \<lparr>nodes = (\<lambda>a. unallocated)
        (0 := Normal ''mu'' (Fin 0) (Constant (Fin 0)) (Constant (Fin 1)),
         1 := Binomial ''k'' (Fin (- (1 / 2))) (Fin (- 1)) (Constant (Fin (1 / 2))),
         2 := Normal ''y'' (Fin 1) (RandRef 0) (RandRef 1)),
      fresh = 3, deterministic = [], observed = [2], stochastic = [0, 1], Src = 1\<rparr>"

section \<open>Comparisons and \<open>SetValue\<close>\<close>

lemma fle_not_flt: "fle x y \<Longrightarrow> \<not> flt y x"
  by (cases x; cases y) (auto simp: fle_def)

lemma not_flt_fle: "x \<noteq> NaN \<Longrightarrow> y \<noteq> NaN \<Longrightarrow> \<not> flt y x \<Longrightarrow> fle x y"
  by (cases x; cases y) (auto simp: fle_def)

lemma math_Round_NaN: "math_Round x = NaN \<longleftrightarrow> x = NaN"
  by (cases x) auto

lemma SetValue_Name: "Name (snd (SetValue ext n x)) = Name n"
  by (cases n) (auto simp: Let_def)

lemma SetValue_reject_same: "fst (SetValue ext n x) \<noteq> None \<Longrightarrow> snd (SetValue ext n x) = n"
  by (cases n) (auto simp: Let_def split: if_splits)

lemma SetValue_accept_Value:
  "fst (SetValue ext n x) = None \<Longrightarrow> RandVar_Value (snd (SetValue ext n x)) = x"
  by (cases n) (auto simp: Let_def split: if_splits)

text \<open>Whether a node accepts a value does not depend on the value it holds.\<close>

lemma SetValue_again:
  "fst (SetValue ext (snd (SetValue ext n y)) x) = fst (SetValue ext n x)"
  by (cases n) (auto simp: Let_def split: if_splits)

lemma upd_accept:
  "fst (SetValue ext ((h(a := snd (SetValue ext (h a) v))) b) x) = fst (SetValue ext (h b) x)"
  by (simp add: SetValue_again)

text \<open>
  \<^bold>\<open>C4\<close>. For every Beta node and every float \<open>x\<close>: \<open>SetValue(x)\<close> succeeds and stores \<open>x\<close>
  when \<open>0 \<le> x \<le> 1\<close>, in particular for 0 and 1; when \<open>x < 0\<close> or \<open>x > 1\<close>, for example
  \<open>-0.1\<close> and \<open>1.1\<close>, it returns an \<open>OutOfBoundsErr\<close> whose message ends with the formatted
  offending value, and the node is as it was.
\<close>

theorem Beta_SetValue_support:
  "(fle (Fin 0) x \<and> fle x (Fin 1) \<longrightarrow>
      SetValue ext (Beta name v alpha beta) x = (None, Beta name x alpha beta))
   \<and> (flt x (Fin 0) \<or> fgt x (Fin 1) \<longrightarrow>
      SetValue ext (Beta name v alpha beta) x =
        (Some (OutOfBoundsErr (''Beta is defined on [0,1], got value '' @ Sprintf_f ext x)),
         Beta name v alpha beta))
   \<and> fst (SetValue ext (Beta name v alpha beta) (Fin 0)) = None
   \<and> fst (SetValue ext (Beta name v alpha beta) (Fin 1)) = None
   \<and> fst (SetValue ext (Beta name v alpha beta) (Fin (- 1 / 10))) \<noteq> None
   \<and> fst (SetValue ext (Beta name v alpha beta) (Fin (11 / 10))) \<noteq> None"
  using fle_not_flt[of "Fin 0" x] fle_not_flt[of x "Fin 1"] by (auto simp: fgt_def)

theorem Beta_SetValue_support_witness:
  "fle (Fin 0) (Fin (3 / 4)) \<and> fle (Fin (3 / 4)) (Fin 1)
   \<and> SetValue demo_ext (NewBeta ''theta'' (Constant (Fin 1)) (Constant (Fin 1))) (Fin (3 / 4))
       = (None, Beta ''theta'' (Fin (3 / 4)) (Constant (Fin 1)) (Constant (Fin 1)))
   \<and> fgt (Fin (3 / 2)) (Fin 1)
   \<and> SetValue demo_ext (NewBeta ''theta'' (Constant (Fin 1)) (Constant (Fin 1))) (Fin (3 / 2))
       = (Some (OutOfBoundsErr ''Beta is defined on [0,1], got value <f>''),
          Beta ''theta'' (Fin (1 / 2)) (Constant (Fin 1)) (Constant (Fin 1)))"
  using Beta_SetValue_support[of "Fin (3 / 4)" demo_ext "''theta''" "Fin (1 / 2)"
      "Constant (Fin 1)" "Constant (Fin 1)"]
    Beta_SetValue_support[of "Fin (3 / 2)" demo_ext "''theta''" "Fin (1 / 2)"
      "Constant (Fin 1)" "Constant (Fin 1)"]
  by (simp add: fle_def fgt_def NewBeta_def demo_ext_def)

text \<open>
  \<^bold>\<open>C5\<close>, as amended. For every Bernoulli node, \<open>SetValue(x)\<close> succeeds if and only if
  \<open>math.Round(x)\<close> equals 0 or 1. For every Binomial node with trial count \<open>N\<close>,
  \<open>SetValue(x)\<close> is rejected if and only if \<open>math.Round(x) < 0\<close> or \<open>math.Round(x) > N\<close>;
  when neither \<open>x\<close> nor \<open>N\<close> is \<open>NaN\<close> this is to say that it succeeds if and only if
  \<open>0 \<le> math.Round(x) \<le> N\<close>. In every successful case the raw value \<open>x\<close> is stored.
\<close>

theorem discrete_SetValue:
  "(fst (SetValue ext (Bernoulli name v p) x) = None \<longleftrightarrow>
      feq (math_Round x) (Fin 0) \<or> feq (math_Round x) (Fin 1))
   \<and> (fst (SetValue ext (Binomial name v N p) x) \<noteq> None \<longleftrightarrow>
      flt (math_Round x) (Fin 0) \<or> fgt (math_Round x) N)
   \<and> (x \<noteq> NaN \<and> N \<noteq> NaN \<longrightarrow>
      (fst (SetValue ext (Binomial name v N p) x) = None \<longleftrightarrow>
         fle (Fin 0) (math_Round x) \<and> fle (math_Round x) N))
   \<and> (fst (SetValue ext (Bernoulli name v p) x) = None \<longrightarrow>
         snd (SetValue ext (Bernoulli name v p) x) = Bernoulli name x p)
   \<and> (fst (SetValue ext (Binomial name v N p) x) = None \<longrightarrow>
         snd (SetValue ext (Binomial name v N p) x) = Binomial name x N p)"
proof -
  have bern: "fst (SetValue ext (Bernoulli name v p) x) = None \<longleftrightarrow>
      feq (math_Round x) (Fin 0) \<or> feq (math_Round x) (Fin 1)"
    by (simp add: Let_def fne_def)
  have rej: "fst (SetValue ext (Binomial name v N p) x) \<noteq> None \<longleftrightarrow>
      flt (math_Round x) (Fin 0) \<or> fgt (math_Round x) N"
    by (simp add: Let_def)
  have acc: "fst (SetValue ext (Binomial name v N p) x) = None \<longleftrightarrow>
         fle (Fin 0) (math_Round x) \<and> fle (math_Round x) N" if "x \<noteq> NaN" "N \<noteq> NaN"
  proof -
    have r: "math_Round x \<noteq> NaN" using that by (simp add: math_Round_NaN)
    show ?thesis
      using rej fle_not_flt[of "Fin 0" "math_Round x"] fle_not_flt[of "math_Round x" N]
        not_flt_fle[of "Fin 0" "math_Round x"] not_flt_fle[of "math_Round x" N] r that
      unfolding fgt_def by blast
  qed
  have st1: "fst (SetValue ext (Bernoulli name v p) x) = None \<longrightarrow>
         snd (SetValue ext (Bernoulli name v p) x) = Bernoulli name x p"
    by (simp add: Let_def)
  have st2: "fst (SetValue ext (Binomial name v N p) x) = None \<longrightarrow>
         snd (SetValue ext (Binomial name v N p) x) = Binomial name x N p"
    by (simp add: Let_def)
  from bern rej acc st1 st2 show ?thesis by blast
qed

text \<open>
  The examples of the claim, a Binomial node with \<open>N = 10\<close>: 10 and 5.4 are accepted and
  5.4 is stored unrounded, 11 and \<open>-1\<close> are rejected; and a Bernoulli node accepts 0.4.
\<close>

theorem discrete_SetValue_witness:
  "Fin (27 / 5) \<noteq> NaN \<and> Fin 10 \<noteq> NaN
   \<and> fle (Fin 0) (math_Round (Fin (27 / 5))) \<and> fle (math_Round (Fin (27 / 5))) (Fin 10)
   \<and> SetValue demo_ext (Binomial ''heads'' (Fin 5) (Fin 10) (Constant (Fin (1 / 2)))) (Fin (27 / 5))
       = (None, Binomial ''heads'' (Fin (27 / 5)) (Fin 10) (Constant (Fin (1 / 2))))
   \<and> fst (SetValue demo_ext (Binomial ''heads'' (Fin 5) (Fin 10) (Constant (Fin (1 / 2)))) (Fin 10)) = None
   \<and> fst (SetValue demo_ext (Binomial ''heads'' (Fin 5) (Fin 10) (Constant (Fin (1 / 2)))) (Fin 11)) \<noteq> None
   \<and> fst (SetValue demo_ext (Binomial ''heads'' (Fin 5) (Fin 10) (Constant (Fin (1 / 2)))) (Fin (- 1))) \<noteq> None
   \<and> SetValue demo_ext (Bernoulli ''coin'' (Fin 0) (Constant (Fin (1 / 2)))) (Fin (2 / 5))
       = (None, Bernoulli ''coin'' (Fin (2 / 5)) (Constant (Fin (1 / 2))))"
  using discrete_SetValue[of demo_ext "''heads''" "Fin 5" "Constant (Fin (1 / 2))" "Fin (27 / 5)" "Fin 10"]
    discrete_SetValue[of demo_ext "''coin''" "Fin 0" "Constant (Fin (1 / 2))" "Fin (2 / 5)" "Fin 10"]
  by (simp add: Let_def round_half_away_def fle_def fgt_def fne_def)

text \<open>
  The claim as it was stated fails on \<open>NaN\<close>: \<open>math.Round(NaN)\<close> is \<open>NaN\<close>, both comparisons
  of the Binomial guard are false on it, so \<open>NaN\<close> is accepted and stored, although
  \<open>0 \<le> NaN \<le> 10\<close> does not hold.
\<close>

theorem discrete_SetValue_counterexample:
  "SetValue demo_ext (Binomial ''heads'' (Fin 5) (Fin 10) (Constant (Fin (1 / 2)))) NaN
     = (None, Binomial ''heads'' NaN (Fin 10) (Constant (Fin (1 / 2))))
   \<and> \<not> (fle (Fin 0) (math_Round NaN) \<and> fle (math_Round NaN) (Fin 10))"
  by (simp add: fgt_def fle_def)

section \<open>The gates\<close>

text \<open>
  \<^bold>\<open>C7\<close>. For every input value \<open>x\<close>, the Logit gate's \<open>Value()\<close> panics if and only if
  \<open>x < 0\<close> or \<open>x > 1\<close>, and for every \<open>x\<close> in \<open>[0, 1]\<close> it returns \<open>log(1 / (1 - x))\<close>, which
  for \<open>0 \<le> x < 1\<close> is the real logarithm of \<open>1 / (1 - x)\<close> and for \<open>x = 1\<close> is \<open>+Inf\<close>.
\<close>

theorem LogitGate_Value:
  "Value h X = Inr x \<Longrightarrow>
     ((\<exists>e. Value h (LogitGate X) = Inl e) \<longleftrightarrow> flt x (Fin 0) \<or> fgt x (Fin 1))
   \<and> (flt x (Fin 0) \<or> fgt x (Fin 1) \<longrightarrow> Value h (LogitGate X) = Inl (LogitDomain x))
   \<and> (fle (Fin 0) x \<and> fle x (Fin 1) \<longrightarrow>
        Value h (LogitGate X) = Inr (flog (fdiv (Fin 1) (fsub (Fin 1) x))))
   \<and> (\<forall>r. x = Fin r \<and> 0 \<le> r \<and> r < 1 \<longrightarrow>
        Value h (LogitGate X) = Inr (Fin (ln (1 / (1 - r)))))
   \<and> (x = Fin 1 \<longrightarrow> Value h (LogitGate X) = Inr PInf)"
  using fle_not_flt[of "Fin 0" x] fle_not_flt[of x "Fin 1"]
  by (auto simp: fgt_def fsub_def finf_def)

theorem LogitGate_Value_witness:
  "Value (nodes (NewModel demo_ext)) (Constant (Fin 0)) = Inr (Fin 0)
   \<and> fle (Fin 0) (Fin 0) \<and> fle (Fin 0) (Fin 1)
   \<and> Value (nodes (NewModel demo_ext)) (LogitGate (Constant (Fin 0))) = Inr (Fin 0)
   \<and> Value (nodes (NewModel demo_ext)) (Constant (Fin 2)) = Inr (Fin 2)
   \<and> fgt (Fin 2) (Fin 1)
   \<and> Value (nodes (NewModel demo_ext)) (LogitGate (Constant (Fin 2))) = Inl (LogitDomain (Fin 2))"
  using LogitGate_Value[of "nodes (NewModel demo_ext)" "Constant (Fin 0)" "Fin 0"]
    LogitGate_Value[of "nodes (NewModel demo_ext)" "Constant (Fin 2)" "Fin 2"]
  by (simp add: fle_def fgt_def)

section \<open>The registry invariant\<close>

lemma Observe_loop_None:
  "Observe_loop vname h as k = None \<longleftrightarrow> (\<forall>a\<in>set as. Name (h a) \<noteq> vname)"
  by (induction as arbitrary: k) auto

lemma Observe_loop_Some:
  "Observe_loop vname h as k = Some i \<Longrightarrow>
   k \<le> i \<and> i - k < length as \<and> Name (h (as ! (i - k))) = vname
     \<and> (\<forall>j<i - k. Name (h (as ! j)) \<noteq> vname)"
proof (induction as arbitrary: k)
  case Nil
  then show ?case by simp
next
  case (Cons a as)
  show ?case
  proof (cases "vname = Name (h a)")
    case True
    with Cons.prems show ?thesis by simp
  next
    case False
    with Cons.prems have "Observe_loop vname h as (Suc k) = Some i" by simp
    from Cons.IH[OF this] have ih: "Suc k \<le> i" "i - Suc k < length as"
      "Name (h (as ! (i - Suc k))) = vname" "\<forall>j<i - Suc k. Name (h (as ! j)) \<noteq> vname"
      by simp_all
    from ih(1) have eq: "i - k = Suc (i - Suc k)" by simp
    have "\<forall>j<i - k. Name (h ((a # as) ! j)) \<noteq> vname"
    proof (intro allI impI)
      fix j assume "j < i - k"
      then show "Name (h ((a # as) ! j)) \<noteq> vname"
        using False ih(4) eq by (cases j) auto
    qed
    with ih eq show ?thesis by simp
  qed
qed

lemma take_drop_remove1:
  "i < length as \<Longrightarrow> as ! i \<notin> set (take i as) \<Longrightarrow>
   take i as @ drop (Suc i) as = remove1 (as ! i) as"
proof (induction as arbitrary: i)
  case Nil
  then show ?case by simp
next
  case (Cons a as)
  then show ?case by (cases i) auto
qed

lemma distinct_nth_notin_take:
  "distinct as \<Longrightarrow> i < length as \<Longrightarrow> as ! i \<notin> set (take i as)"
proof
  assume d: "distinct as" and i: "i < length as" and "as ! i \<in> set (take i as)"
  then obtain k where "k < length (take i as)" "take i as ! k = as ! i"
    by (auto simp: in_set_conv_nth)
  then have "k < i" "as ! k = as ! i" by simp_all
  with d i have "k = i" by (simp add: nth_eq_iff_index_eq)
  with \<open>k < i\<close> show False by simp
qed


lemma IsTaken_in_iff: "IsTaken_in h as name \<longleftrightarrow> name \<in> set (map (\<lambda>a. Name (h a)) as)"
  by (induction as) auto

lemma IsTaken_iff:
  "IsTaken m name \<longleftrightarrow> name \<in> set (map (\<lambda>a. Name (nodes m a)) (stochastic m @ observed m))"
  by (auto simp: IsTaken_def IsTaken_in_iff)

lemma wf_NewModel: "wf_model (NewModel ext)"
  by (simp add: wf_model_def names_unique_def NewModel_def)

lemma map_upd_fresh:
  assumes "list_all (\<lambda>b. b < (k::nat)) as"
  shows "map (\<lambda>b. Name ((h(k := n)) b)) as = map (\<lambda>b. Name (h b)) as"
proof (rule map_cong[OF refl])
  fix b assume "b \<in> set as"
  with assms have "b < k" by (simp add: list_all_iff)
  then have "b \<noteq> k" by arith
  then show "Name ((h(k := n)) b) = Name (h b)" by simp
qed

lemma wf_add_stochastic:
  assumes wf: "wf_model m" and free: "\<not> IsTaken m (Name n)"
  shows "wf_model (snd (add_stochastic m n))"
proof -
  let ?k = "fresh m"
  from wf have b1: "list_all (\<lambda>b. b < ?k) (stochastic m)" and b2: "list_all (\<lambda>b. b < ?k) (observed m)"
    and dn: "distinct (map (\<lambda>b. Name (nodes m b)) (stochastic m @ observed m))"
    by (simp_all add: wf_model_def names_unique_def)
  from free have nn: "Name n \<notin> set (map (\<lambda>b. Name (nodes m b)) (stochastic m @ observed m))"
    by (simp add: IsTaken_iff)
  have "distinct (map (\<lambda>b. Name (((nodes m)(?k := n)) b)) ((stochastic m @ [?k]) @ observed m))"
    using dn nn by (simp add: map_upd_fresh[OF b1] map_upd_fresh[OF b2] del: fun_upd_apply) auto
  moreover have "list_all (\<lambda>b. b < Suc ?k) ((stochastic m @ [?k]) @ observed m)"
    using b1 b2 by (auto simp: list_all_iff)
  ultimately show ?thesis
    by (simp add: wf_model_def names_unique_def add_stochastic_def Let_def del: fun_upd_apply)
qed


lemma NewNormal_Name: "NewNormal h name mu sigma = Inr n \<Longrightarrow> Name n = name"
  by (auto simp: NewNormal_def split: sum.splits)

lemma NewBinomial_Name: "NewBinomial h name N p = Inr n \<Longrightarrow> Name n = name"
  by (auto simp: NewBinomial_def split: sum.splits)

lemma wf_Model_Normal:
  assumes "wf_model m" "Model_Normal m name mu sigma = Inr (a, m')"
  shows "wf_model m'"
proof -
  from assms(2) obtain n where n: "NewNormal (nodes m) name mu sigma = Inr n"
    and free: "\<not> IsTaken m name" and m': "m' = snd (add_stochastic m n)"
    by (auto simp: Model_Normal_def split: sum.splits if_splits)
  from free NewNormal_Name[OF n] have "\<not> IsTaken m (Name n)" by simp
  with assms(1) show ?thesis unfolding m' by (rule wf_add_stochastic)
qed

lemma wf_Model_Beta:
  assumes "wf_model m" "Model_Beta m name alpha beta = Inr (a, m')"
  shows "wf_model m'"
proof -
  from assms(2) have free: "\<not> IsTaken m name"
    and m': "m' = snd (add_stochastic m (NewBeta name alpha beta))"
    by (auto simp: Model_Beta_def Let_def split: if_splits)
  from free have "\<not> IsTaken m (Name (NewBeta name alpha beta))" by (simp add: NewBeta_def)
  with assms(1) show ?thesis unfolding m' by (rule wf_add_stochastic)
qed

lemma wf_Model_Bernoulli:
  assumes "wf_model m" "Model_Bernoulli m name p = Inr (a, m')"
  shows "wf_model m'"
proof -
  from assms(2) have free: "\<not> IsTaken m name"
    and m': "m' = snd (add_stochastic m (NewBernoulli name p))"
    by (auto simp: Model_Bernoulli_def Let_def split: if_splits)
  from free have "\<not> IsTaken m (Name (NewBernoulli name p))" by (simp add: NewBernoulli_def)
  with assms(1) show ?thesis unfolding m' by (rule wf_add_stochastic)
qed

lemma wf_Model_Binomial:
  assumes "wf_model m" "Model_Binomial m name N p = Inr (a, m')"
  shows "wf_model m'"
proof -
  from assms(2) obtain n where n: "NewBinomial (nodes m) name N p = Inr n"
    and free: "\<not> IsTaken m name" and m': "m' = snd (add_stochastic m n)"
    by (auto simp: Model_Binomial_def split: sum.splits if_splits)
  from free NewBinomial_Name[OF n] have "\<not> IsTaken m (Name n)" by simp
  with assms(1) show ?thesis unfolding m' by (rule wf_add_stochastic)
qed

lemma wf_add_deterministic: "wf_model m \<Longrightarrow> wf_model (snd (add_deterministic m t))"
  by (simp add: wf_model_def names_unique_def add_deterministic_def)

lemma wf_Observe:
  assumes wf: "wf_model m" and ob: "Observe ext m variable val = Inr m'"
  shows "wf_model m'"
proof -
  let ?sto = "stochastic m" and ?h = "nodes m"
  from ob obtain i where i: "Observe_loop (Name variable) ?h ?sto 0 = Some i"
    by (auto simp: Observe_def split: option.splits)
  let ?c = "?sto ! i"
  let ?h' = "(?h)(?c := snd (SetValue ext (?h ?c) val))"
  from ob i have m': "m' = m\<lparr>stochastic := take i ?sto @ drop (Suc i) ?sto,
      observed := observed m @ [?c], nodes := ?h'\<rparr>"
    by (simp add: Observe_def Let_def)
  from Observe_loop_Some[OF i] have il: "i < length ?sto" by simp
  have names: "(\<lambda>b. Name (?h' b)) = (\<lambda>b. Name (?h b))"
    by (rule ext) (simp add: SetValue_Name)
  have split: "?sto = take i ?sto @ ?c # drop (Suc i) ?sto"
    using il by (rule id_take_nth_drop)
  from wf have "distinct (map (\<lambda>b. Name (?h b)) (?sto @ observed m))"
    and "list_all (\<lambda>b. b < fresh m) (?sto @ observed m)"
    by (simp_all add: wf_model_def names_unique_def)
  then have "distinct (map (\<lambda>b. Name (?h b))
        ((take i ?sto @ ?c # drop (Suc i) ?sto) @ observed m))"
    and "list_all (\<lambda>b. b < fresh m) ((take i ?sto @ ?c # drop (Suc i) ?sto) @ observed m)"
    using split by simp_all
  then have "distinct (map (\<lambda>b. Name (?h b))
        ((take i ?sto @ drop (Suc i) ?sto) @ observed m @ [?c]))"
    and "list_all (\<lambda>b. b < fresh m) ((take i ?sto @ drop (Suc i) ?sto) @ observed m @ [?c])"
    by auto
  then show ?thesis
    unfolding m' by (simp add: wf_model_def names_unique_def names del: fun_upd_apply)
qed

lemma wf_run_decl: "wf_model m \<Longrightarrow> run_decl ext d m = Inr m' \<Longrightarrow> wf_model m'"
proof (cases d)
  case (Decl_Normal name mu sigma)
  assume "wf_model m" "run_decl ext d m = Inr m'"
  then show ?thesis unfolding Decl_Normal
    by (cases "Model_Normal m name mu sigma") (auto dest: wf_Model_Normal)
next
  case (Decl_Beta name alpha beta)
  assume "wf_model m" "run_decl ext d m = Inr m'"
  then show ?thesis unfolding Decl_Beta
    by (cases "Model_Beta m name alpha beta") (auto dest: wf_Model_Beta)
next
  case (Decl_Bernoulli name p)
  assume "wf_model m" "run_decl ext d m = Inr m'"
  then show ?thesis unfolding Decl_Bernoulli
    by (cases "Model_Bernoulli m name p") (auto dest: wf_Model_Bernoulli)
next
  case (Decl_Binomial name N p)
  assume "wf_model m" "run_decl ext d m = Inr m'"
  then show ?thesis unfolding Decl_Binomial
    by (cases "Model_Binomial m name N p") (auto dest: wf_Model_Binomial)
next
  case (Decl_Observe a v)
  assume "wf_model m" "run_decl ext d m = Inr m'"
  then show ?thesis unfolding Decl_Observe by (auto dest: wf_Observe)
qed (auto simp: Model_Constant_def Model_Sum_def Model_Prod_def Model_Logistic_def
      Model_Logit_def Model_Switch_def dest: wf_add_deterministic)

lemma wf_build: "wf_model m \<Longrightarrow> build ext ds m = Inr m' \<Longrightarrow> wf_model m'"
proof (induction ds arbitrary: m)
  case Nil
  then show ?case by simp
next
  case (Cons d ds)
  then show ?case by (auto split: sum.splits dest: wf_run_decl)
qed

lemma wf_model_distinct:
  assumes "wf_model m"
  shows "distinct (map (\<lambda>b. Name (nodes m b)) (stochastic m))" and "distinct (stochastic m)"
proof -
  from assms show 1: "distinct (map (\<lambda>b. Name (nodes m b)) (stochastic m))"
    by (simp add: wf_model_def names_unique_def)
  then show "distinct (stochastic m)" by (simp add: distinct_map)
qed

lemma demo_model_built: "build demo_ext demo_decls (NewModel demo_ext) = Inr demo_model"
  by (simp add: demo_decls_def demo_model_def NewModel_def demo_ext_def Model_Normal_def
      Model_Beta_def Model_Binomial_def NewNormal_def NewBeta_def NewBinomial_def IsTaken_def
      add_stochastic_def Observe_def Let_def round_half_away_def fgt_def numeral_2_eq_2
      numeral_3_eq_3)

lemma drift_model_built: "build drift_ext drift_decls (NewModel drift_ext) = Inr drift_model"
  by (simp add: drift_decls_def drift_model_def NewModel_def drift_ext_def Model_Normal_def
      Model_Binomial_def NewNormal_def NewBinomial_def IsTaken_def
      add_stochastic_def Observe_def Let_def numeral_2_eq_2 numeral_3_eq_3)

section \<open>\<open>Observe\<close>\<close>

text \<open>
  \<^bold>\<open>C3\<close>. In a model whose stochastic names are pairwise different: if the node at
  address \<open>a\<close> is in the stochastic collection and has the name of \<open>variable\<close>, then
  \<open>Observe(variable, val)\<close> removes \<open>a\<close> from the stochastic collection, appends it to the
  observed collection and calls \<open>SetValue(val)\<close> on it, so that the stochastic count goes
  down by one and the observed count up by one, and observing the same name once more
  panics; if no stochastic node has that name, \<open>Observe\<close> panics.
\<close>

theorem Observe_moves_node:
  assumes uniq: "distinct (map (\<lambda>b. Name (nodes m b)) (stochastic m))"
  shows
    "(a \<in> set (stochastic m) \<and> Name (nodes m a) = Name variable \<longrightarrow>
        Observe ext m variable val =
          Inr (m\<lparr>stochastic := remove1 a (stochastic m), observed := observed m @ [a],
                 nodes := (nodes m)(a := snd (SetValue ext (nodes m a) val))\<rparr>)
        \<and> Suc (length (remove1 a (stochastic m))) = length (stochastic m)
        \<and> length (observed m @ [a]) = Suc (length (observed m))
        \<and> (\<forall>val'. Observe ext
              (m\<lparr>stochastic := remove1 a (stochastic m), observed := observed m @ [a],
                 nodes := (nodes m)(a := snd (SetValue ext (nodes m a) val))\<rparr>) variable val'
             = Inl (UnknownVariable (Name variable))))
     \<and> ((\<forall>b\<in>set (stochastic m). Name (nodes m b) \<noteq> Name variable) \<longrightarrow>
          Observe ext m variable val = Inl (UnknownVariable (Name variable)))"
proof -
  let ?sto = "stochastic m" and ?h = "nodes m" and ?n = "Name variable"
  have d: "distinct ?sto" using uniq by (simp add: distinct_map)
  have inj: "inj_on (\<lambda>b. Name (?h b)) (set ?sto)" using uniq by (simp add: distinct_map)
  have none: "Observe ext m variable val = Inl (UnknownVariable ?n)"
    if "\<forall>b\<in>set ?sto. Name (?h b) \<noteq> ?n"
  proof -
    from that have "Observe_loop ?n ?h ?sto 0 = None" by (simp add: Observe_loop_None)
    then show ?thesis by (simp add: Observe_def)
  qed
  let ?h' = "(?h)(a := snd (SetValue ext (?h a) val))"
  let ?m' = "m\<lparr>stochastic := remove1 a ?sto, observed := observed m @ [a], nodes := ?h'\<rparr>"
  have found: "Observe ext m variable val = Inr ?m'"
    and len: "Suc (length (remove1 a ?sto)) = length ?sto"
    and again: "\<forall>val'. Observe ext ?m' variable val' = Inl (UnknownVariable ?n)"
    if a: "a \<in> set ?sto" and na: "Name (?h a) = ?n"
  proof -
    from a na have "Observe_loop ?n ?h ?sto 0 \<noteq> None" by (auto simp: Observe_loop_None)
    then obtain i where i: "Observe_loop ?n ?h ?sto 0 = Some i" by blast
    from Observe_loop_Some[OF i] have il: "i < length ?sto" and ni: "Name (?h (?sto ! i)) = ?n"
      by simp_all
    from il have "?sto ! i \<in> set ?sto" by simp
    moreover from ni na have "Name (?h (?sto ! i)) = Name (?h a)" by simp
    ultimately have ai: "?sto ! i = a" using a by (intro inj_onD[OF inj])
    have "take i ?sto @ drop (Suc i) ?sto = remove1 (?sto ! i) ?sto"
      using il distinct_nth_notin_take[OF d il] by (rule take_drop_remove1)
    with i ai show "Observe ext m variable val = Inr ?m'"
      by (simp add: Observe_def Let_def)
    from a length_pos_if_in_set[OF a] show "Suc (length (remove1 a ?sto)) = length ?sto"
      by (simp add: length_remove1)
    have "\<forall>b\<in>set (remove1 a ?sto). Name (?h' b) \<noteq> ?n"
    proof
      fix b assume "b \<in> set (remove1 a ?sto)"
      with d have b: "b \<in> set ?sto" "b \<noteq> a" by simp_all
      have "Name (?h b) \<noteq> ?n"
      proof
        assume "Name (?h b) = ?n"
        with na have "Name (?h b) = Name (?h a)" by simp
        from inj_onD[OF inj this b(1) a] b(2) show False by simp
      qed
      with b show "Name (?h' b) \<noteq> ?n" by simp
    qed
    then have "Observe_loop ?n ?h' (remove1 a ?sto) 0 = None" by (simp add: Observe_loop_None)
    then show "\<forall>val'. Observe ext ?m' variable val' = Inl (UnknownVariable ?n)"
      by (simp add: Observe_def)
  qed
  from none found len again show ?thesis by simp
qed


text \<open>
  In the example model \<open>theta\<close> is observed; observing it again, or observing \<open>heads\<close>,
  which is observed already, panics.
\<close>

theorem Observe_moves_node_witness:
  "distinct (map (\<lambda>b. Name (nodes demo_model b)) (stochastic demo_model))
   \<and> 1 \<in> set (stochastic demo_model)
   \<and> Name (nodes demo_model 1) = ''theta''
   \<and> Observe demo_ext demo_model (nodes demo_model 1) (Fin (3 / 10)) =
       Inr (demo_model\<lparr>stochastic := [0], observed := [2, 1],
              nodes := (nodes demo_model)
                (1 := Beta ''theta'' (Fin (3 / 10)) (Constant (Fin 1)) (Constant (Fin 1)))\<rparr>)
   \<and> Observe demo_ext
        (demo_model\<lparr>stochastic := [0], observed := [2, 1],
              nodes := (nodes demo_model)
                (1 := Beta ''theta'' (Fin (3 / 10)) (Constant (Fin 1)) (Constant (Fin 1)))\<rparr>)
        (nodes demo_model 1) (Fin (2 / 5)) = Inl (UnknownVariable ''theta'')
   \<and> stochastic demo_model = [0, 1]
   \<and> Name (nodes demo_model 0) \<noteq> ''heads'' \<and> Name (nodes demo_model 1) \<noteq> ''heads''
   \<and> Observe demo_ext demo_model (nodes demo_model 2) (Fin 3) = Inl (UnknownVariable ''heads'')"
  using Observe_moves_node[of demo_model 1 "nodes demo_model 1" demo_ext "Fin (3 / 10)"]
    Observe_moves_node[of demo_model 1 "nodes demo_model 2" demo_ext "Fin 3"]
  by (simp add: demo_model_def fgt_def)

section \<open>\<open>Model.LogProb\<close>\<close>

lemma LogProb_assign_Cons_accept:
  "fst (SetValue ext (h a) v) = None \<Longrightarrow>
   LogProb_assign ext h (a # as) (v # vs) =
     LogProb_assign ext (h(a := snd (SetValue ext (h a) v))) as vs"
  by (cases "SetValue ext (h a) v") (simp del: fun_upd_apply)

lemma LogProb_assign_Cons_reject:
  "fst (SetValue ext (h a) v) \<noteq> None \<Longrightarrow> LogProb_assign ext h (a # as) (v # vs) = (h, True)"
  using SetValue_reject_same[of ext "h a" v]
  by (cases "SetValue ext (h a) v") (auto simp del: fun_upd_apply)

lemma LogProb_assign_all:
  "length as = length vs \<Longrightarrow>
   \<forall>j<length as. fst (SetValue ext (h (as ! j)) (vs ! j)) = None \<Longrightarrow>
   LogProb_assign ext h as vs = (assign_in_order ext h as vs, False)"
proof (induction as arbitrary: h vs)
  case Nil
  then show ?case by simp
next
  case (Cons a as)
  then obtain v vs' where vs: "vs = v # vs'" by (cases vs) auto
  from Cons.prems(2) have hd: "fst (SetValue ext (h a) v) = None"
    unfolding vs by force
  let ?h = "h(a := snd (SetValue ext (h a) v))"
  have tl: "\<forall>j<length as. fst (SetValue ext (?h (as ! j)) (vs' ! j)) = None"
  proof (intro allI impI)
    fix j assume "j < length as"
    then have "fst (SetValue ext (h ((a # as) ! Suc j)) (vs ! Suc j)) = None"
      using Cons.prems(2) by (metis Suc_less_eq length_Cons)
    then show "fst (SetValue ext (?h (as ! j)) (vs' ! j)) = None"
      unfolding vs by (simp add: upd_accept del: fun_upd_apply)
  qed
  from Cons.prems(1) have len: "length as = length vs'" unfolding vs by simp
  have "LogProb_assign ext h (a # as) vs = LogProb_assign ext ?h as vs'"
    unfolding vs using hd by (rule LogProb_assign_Cons_accept)
  also have "\<dots> = (assign_in_order ext ?h as vs', False)"
    by (rule Cons.IH[OF len tl])
  finally show ?case unfolding vs by (simp del: fun_upd_apply)
qed

lemma LogProb_assign_reject:
  "length as = length vs \<Longrightarrow> i < length as \<Longrightarrow>
   \<forall>j<i. fst (SetValue ext (h (as ! j)) (vs ! j)) = None \<Longrightarrow>
   fst (SetValue ext (h (as ! i)) (vs ! i)) \<noteq> None \<Longrightarrow>
   LogProb_assign ext h as vs = (assign_in_order ext h (take i as) (take i vs), True)"
proof (induction as arbitrary: h vs i)
  case Nil
  then show ?case by simp
next
  case (Cons a as)
  then obtain v vs' where vs: "vs = v # vs'" by (cases vs) auto
  show ?case
  proof (cases i)
    case 0
    with Cons.prems(4) have rej: "fst (SetValue ext (h a) v) \<noteq> None" unfolding vs by simp
    then have "LogProb_assign ext h (a # as) (v # vs') = (h, True)"
      by (rule LogProb_assign_Cons_reject)
    then show ?thesis unfolding vs 0 by simp
  next
    case (Suc i')
    from Cons.prems(3) have hd: "fst (SetValue ext (h a) v) = None"
      unfolding vs Suc by force
    let ?h = "h(a := snd (SetValue ext (h a) v))"
    have tl: "\<forall>j<i'. fst (SetValue ext (?h (as ! j)) (vs' ! j)) = None"
    proof (intro allI impI)
      fix j assume "j < i'"
      then have "fst (SetValue ext (h ((a # as) ! Suc j)) (vs ! Suc j)) = None"
        using Cons.prems(3) unfolding Suc by (metis Suc_less_eq)
      then show "fst (SetValue ext (?h (as ! j)) (vs' ! j)) = None"
        unfolding vs by (simp add: upd_accept del: fun_upd_apply)
    qed
    have rej: "fst (SetValue ext (?h (as ! i')) (vs' ! i')) \<noteq> None"
      using Cons.prems(4) unfolding vs Suc by (simp add: upd_accept del: fun_upd_apply)
    from Cons.prems(1,2) have len: "length as = length vs'" "i' < length as"
      unfolding vs Suc by simp_all
    have "LogProb_assign ext h (a # as) vs = LogProb_assign ext ?h as vs'"
      unfolding vs using hd by (rule LogProb_assign_Cons_accept)
    also have "\<dots> = (assign_in_order ext ?h (take i' as) (take i' vs'), True)"
      by (rule Cons.IH[OF len tl rej])
    finally show ?thesis unfolding vs Suc by (simp del: fun_upd_apply)
  qed
qed

lemma LogProb_sum_append:
  "LogProb_sum ext h (as @ bs) acc =
     (case LogProb_sum ext h as acc of Inl e \<Rightarrow> Inl e | Inr x \<Rightarrow> LogProb_sum ext h bs x)"
  by (induction as arbitrary: acc) (auto split: sum.splits)

lemma LogProb_sum_foldl:
  "map (\<lambda>a. LogProb ext h (h a)) as = map Inr lps \<Longrightarrow>
   LogProb_sum ext h as acc = Inr (foldl fadd acc lps)"
proof (induction as arbitrary: acc lps)
  case Nil
  then show ?case by simp
next
  case (Cons a as)
  then obtain lp lps' where "lps = lp # lps'" by (cases lps) auto
  with Cons show ?case by auto
qed

lemma LogProb_sum_panic:
  "\<exists>a\<in>set as. \<exists>e. LogProb ext h (h a) = Inl e \<Longrightarrow> \<exists>e. LogProb_sum ext h as acc = Inl e"
  by (induction as arbitrary: acc) (auto split: sum.splits)

lemma assign_in_order_other:
  "b \<notin> set as \<Longrightarrow> assign_in_order ext h as vs b = h b"
proof (induction as arbitrary: h vs)
  case Nil
  then show ?case by simp
next
  case (Cons a as)
  then show ?case by (cases vs) auto
qed

lemma assign_in_order_nth:
  "distinct as \<Longrightarrow> length as = length vs \<Longrightarrow> j < length as \<Longrightarrow>
   assign_in_order ext h as vs (as ! j) = snd (SetValue ext (h (as ! j)) (vs ! j))"
proof (induction as arbitrary: h vs j)
  case Nil
  then show ?case by simp
next
  case (Cons a as)
  then obtain v vs' where vs: "vs = v # vs'" by (cases vs) auto
  show ?case
  proof (cases j)
    case 0
    with Cons.prems show ?thesis unfolding vs by (simp add: assign_in_order_other)
  next
    case (Suc j')
    with Cons.prems have "as ! j' \<noteq> a" unfolding vs by auto
    with Cons Suc show ?thesis unfolding vs by simp
  qed
qed


lemma Model_LogProb_reject:
  assumes "length proposed = length (stochastic m)" "i < length proposed"
    "\<forall>j<i. fst (SetValue ext (nodes m (stochastic m ! j)) (proposed ! j)) = None"
    "fst (SetValue ext (nodes m (stochastic m ! i)) (proposed ! i)) \<noteq> None"
  shows "Model_LogProb ext m proposed =
      Inr (NInf, m\<lparr>nodes := assign_in_order ext (nodes m)
                               (take i (stochastic m)) (take i proposed)\<rparr>)"
proof -
  from assms(1,2) have l: "length (stochastic m) = length proposed" "i < length (stochastic m)"
    by simp_all
  have "LogProb_assign ext (nodes m) (stochastic m) proposed =
      (assign_in_order ext (nodes m) (take i (stochastic m)) (take i proposed), True)"
    by (rule LogProb_assign_reject[OF l assms(3) assms(4)])
  then show ?thesis by (simp add: Model_LogProb_def assms(1))
qed


text \<open>
  \<^bold>\<open>C1\<close>. For a proposal vector of the right length: if \<open>i\<close> is the first index whose
  node rejects its proposal, \<open>LogProb\<close> returns \<open>-Inf\<close> having assigned exactly the
  proposals before \<open>i\<close>, in order; so whenever some proposal is rejected it returns \<open>-Inf\<close>.
  If every proposal is accepted, all of them have been assigned in order (node \<open>i\<close> holds
  \<open>proposed[i]\<close>), and when the nodes' \<open>LogProb()\<close> return \<open>lps\<close>, over the stochastic
  nodes and then the observed ones, the result is the sum of \<open>lps\<close> accumulated from 0;
  when the \<open>LogProb()\<close> of a node panics (a Logit gate among its parameters), so does the
  call.
  Whether a node accepts a value does not depend on the value it holds
  (\<open>SetValue_again\<close>), so acceptance is stated in the memory before the call.
\<close>

theorem Model_LogProb_result:
  assumes len: "length proposed = length (stochastic m)"
  shows
    "(\<forall>i<length proposed.
        (\<forall>j<i. fst (SetValue ext (nodes m (stochastic m ! j)) (proposed ! j)) = None) \<and>
        fst (SetValue ext (nodes m (stochastic m ! i)) (proposed ! i)) \<noteq> None \<longrightarrow>
        Model_LogProb ext m proposed =
          Inr (NInf, m\<lparr>nodes := assign_in_order ext (nodes m)
                                   (take i (stochastic m)) (take i proposed)\<rparr>))
     \<and> ((\<exists>i<length proposed.
            fst (SetValue ext (nodes m (stochastic m ! i)) (proposed ! i)) \<noteq> None) \<longrightarrow>
          (\<exists>m'. Model_LogProb ext m proposed = Inr (NInf, m')))
     \<and> ((\<forall>i<length proposed.
            fst (SetValue ext (nodes m (stochastic m ! i)) (proposed ! i)) = None) \<longrightarrow>
          (\<forall>lps. map (\<lambda>a. LogProb ext (assign_in_order ext (nodes m) (stochastic m) proposed)
                              (assign_in_order ext (nodes m) (stochastic m) proposed a))
                     (stochastic m @ observed m) = map Inr lps \<longrightarrow>
             Model_LogProb ext m proposed =
               Inr (foldl fadd (Fin 0) lps,
                    m\<lparr>nodes := assign_in_order ext (nodes m) (stochastic m) proposed\<rparr>))
          \<and> ((\<exists>a\<in>set (stochastic m @ observed m). \<exists>e.
                 LogProb ext (assign_in_order ext (nodes m) (stochastic m) proposed)
                   (assign_in_order ext (nodes m) (stochastic m) proposed a) = Inl e) \<longrightarrow>
               (\<exists>e. Model_LogProb ext m proposed = Inl e))
          \<and> (distinct (stochastic m) \<longrightarrow>
               (\<forall>i<length proposed.
                  RandVar_Value (assign_in_order ext (nodes m) (stochastic m) proposed
                                   (stochastic m ! i)) = proposed ! i)))"
proof -
  let ?sto = "stochastic m" and ?h = "nodes m"
  let ?acc = "\<lambda>j. fst (SetValue ext (?h (?sto ! j)) (proposed ! j)) = None"
  have len': "length ?sto = length proposed" using len by simp
  have rej: "Model_LogProb ext m proposed =
      Inr (NInf, m\<lparr>nodes := assign_in_order ext ?h (take i ?sto) (take i proposed)\<rparr>)"
    if "i < length proposed" "\<forall>j<i. ?acc j" "\<not> ?acc i" for i
    using len that by (rule Model_LogProb_reject)
  have some: "\<exists>m'. Model_LogProb ext m proposed = Inr (NInf, m')"
    if "\<exists>i<length proposed. \<not> ?acc i"
  proof -
    from that obtain i where i: "i < length proposed \<and> \<not> ?acc i" by blast
    define k where "k = (LEAST i. i < length proposed \<and> \<not> ?acc i)"
    have k: "k < length proposed \<and> \<not> ?acc k"
      unfolding k_def using i by (rule LeastI)
    have "\<forall>j<k. ?acc j"
    proof (intro allI impI)
      fix j assume "j < k"
      then have "\<not> (j < length proposed \<and> \<not> ?acc j)"
        unfolding k_def by (rule not_less_Least)
      moreover from \<open>j < k\<close> k have "j < length proposed" by simp
      ultimately show "?acc j" by blast
    qed
    with k rej[of k] show ?thesis by blast
  qed
  let ?h' = "assign_in_order ext ?h ?sto proposed"
  have ok: "Model_LogProb ext m proposed = Inr (foldl fadd (Fin 0) lps, m\<lparr>nodes := ?h'\<rparr>)"
    if all: "\<forall>i<length proposed. ?acc i"
      and lps: "map (\<lambda>a. LogProb ext ?h' (?h' a)) (?sto @ observed m) = map Inr lps" for lps
  proof -
    from all len have all': "\<forall>j<length ?sto. ?acc j" by simp
    have asg: "LogProb_assign ext ?h ?sto proposed = (?h', False)"
      by (rule LogProb_assign_all[OF len' all'])
    have "LogProb_sum ext ?h' (?sto @ observed m) (Fin 0) = Inr (foldl fadd (Fin 0) lps)"
      using lps by (rule LogProb_sum_foldl)
    then have "(case LogProb_sum ext ?h' ?sto (Fin 0) of Inl e \<Rightarrow> Inl e
                | Inr x \<Rightarrow> LogProb_sum ext ?h' (observed m) x) = Inr (foldl fadd (Fin 0) lps)"
      by (simp only: LogProb_sum_append)
    with asg show ?thesis
      by (auto simp: Model_LogProb_def len split: sum.splits)
  qed
  have bad: "\<exists>e. Model_LogProb ext m proposed = Inl e"
    if all: "\<forall>i<length proposed. ?acc i"
      and p: "\<exists>a\<in>set (?sto @ observed m). \<exists>e. LogProb ext ?h' (?h' a) = Inl e"
  proof -
    from all len have all': "\<forall>j<length ?sto. ?acc j" by simp
    have asg: "LogProb_assign ext ?h ?sto proposed = (?h', False)"
      by (rule LogProb_assign_all[OF len' all'])
    from LogProb_sum_panic[OF p] obtain e where
      "LogProb_sum ext ?h' (?sto @ observed m) (Fin 0) = Inl e" ..
    then have "(case LogProb_sum ext ?h' ?sto (Fin 0) of Inl e \<Rightarrow> Inl e
                | Inr x \<Rightarrow> LogProb_sum ext ?h' (observed m) x) = Inl e"
      by (simp only: LogProb_sum_append)
    with asg show ?thesis
      by (auto simp: Model_LogProb_def len split: sum.splits)
  qed
  have vals: "RandVar_Value (?h' (?sto ! i)) = proposed ! i"
    if all: "\<forall>i<length proposed. ?acc i" and d: "distinct ?sto" and i: "i < length proposed" for i
  proof -
    from i len have i': "i < length ?sto" by simp
    have "?h' (?sto ! i) = snd (SetValue ext (?h (?sto ! i)) (proposed ! i))"
      by (rule assign_in_order_nth[OF d len' i'])
    with all i show ?thesis by (simp add: SetValue_accept_Value)
  qed
  from rej some ok bad vals show ?thesis by blast
qed



text \<open>
  In the example model: \<open>theta\<close> rejects 1.5 after \<open>mu\<close> was set to 3; and the proposal
  \<open>[3, 0.25]\<close> is accepted, the three log-probabilities being added up from 0.
\<close>

theorem Model_LogProb_result_witness:
  "length [Fin 3, Fin (3 / 2)] = length (stochastic demo_model)
   \<and> fst (SetValue demo_ext (nodes demo_model (stochastic demo_model ! 0)) ([Fin 3, Fin (3 / 2)] ! 0)) = None
   \<and> fst (SetValue demo_ext (nodes demo_model (stochastic demo_model ! 1)) ([Fin 3, Fin (3 / 2)] ! 1)) \<noteq> None
   \<and> Model_LogProb demo_ext demo_model [Fin 3, Fin (3 / 2)] =
       Inr (NInf, demo_model\<lparr>nodes := (nodes demo_model)
              (0 := Normal ''mu'' (Fin 3) (Constant (Fin 0)) (Constant (Fin 1)))\<rparr>)
   \<and> length [Fin 3, Fin (1 / 4)] = length (stochastic demo_model)
   \<and> fst (SetValue demo_ext (nodes demo_model (stochastic demo_model ! 0)) ([Fin 3, Fin (1 / 4)] ! 0)) = None
   \<and> fst (SetValue demo_ext (nodes demo_model (stochastic demo_model ! 1)) ([Fin 3, Fin (1 / 4)] ! 1)) = None
   \<and> Model_LogProb demo_ext demo_model [Fin 3, Fin (1 / 4)] =
       Inr (foldl fadd (Fin 0) [Fin (- 9), Fin (- (1 / 16)), Fin (- 49)],
            demo_model\<lparr>nodes := (nodes demo_model)
              (0 := Normal ''mu'' (Fin 3) (Constant (Fin 0)) (Constant (Fin 1)),
               1 := Beta ''theta'' (Fin (1 / 4)) (Constant (Fin 1)) (Constant (Fin 1)))\<rparr>)"
  using Model_LogProb_result[of "[Fin 3, Fin (3 / 2)]" demo_model demo_ext]
    Model_LogProb_result[of "[Fin 3, Fin (1 / 4)]" demo_model demo_ext]
  by (simp add: demo_model_def demo_ext_def Model_LogProb_def LogProb_def fgt_def
      All_less_Suc numeral_2_eq_2)

text \<open>
  \<^bold>\<open>C8\<close>. When \<open>LogProb\<close> returns \<open>-Inf\<close> because the \<open>i\<close>-th stochastic node is the first
  to reject its proposal, every stochastic node before \<open>i\<close> holds its proposed value, every
  stochastic node from \<open>i\<close> on is as it was before the call, and so is every other node.
\<close>

theorem Model_LogProb_rejected_frame:
  assumes d: "distinct (stochastic m)"
    and len: "length proposed = length (stochastic m)"
    and i: "i < length proposed"
    and acc: "\<forall>j<i. fst (SetValue ext (nodes m (stochastic m ! j)) (proposed ! j)) = None"
    and rej: "fst (SetValue ext (nodes m (stochastic m ! i)) (proposed ! i)) \<noteq> None"
  shows "\<exists>m'. Model_LogProb ext m proposed = Inr (NInf, m')
      \<and> stochastic m' = stochastic m \<and> observed m' = observed m
      \<and> (\<forall>j<i. RandVar_Value (nodes m' (stochastic m ! j)) = proposed ! j)
      \<and> (\<forall>j. i \<le> j \<and> j < length proposed \<longrightarrow>
             nodes m' (stochastic m ! j) = nodes m (stochastic m ! j))
      \<and> (\<forall>a. a \<notin> set (take i (stochastic m)) \<longrightarrow> nodes m' a = nodes m a)"
proof -
  let ?sto = "stochastic m"
  let ?h' = "assign_in_order ext (nodes m) (take i ?sto) (take i proposed)"
  let ?m' = "m\<lparr>nodes := ?h'\<rparr>"
  have res: "Model_LogProb ext m proposed = Inr (NInf, ?m')"
    using len i acc rej by (rule Model_LogProb_reject)
  have dt: "distinct (take i ?sto)" using d by simp
  have lt: "length (take i ?sto) = length (take i proposed)" using len by simp
  have before: "RandVar_Value (?h' (?sto ! j)) = proposed ! j" if "j < i" for j
  proof -
    from that i len have j: "j < length (take i ?sto)" by simp
    have "?h' (take i ?sto ! j) =
        snd (SetValue ext (nodes m (take i ?sto ! j)) (take i proposed ! j))"
      by (rule assign_in_order_nth[OF dt lt j])
    with that have "?h' (?sto ! j) = snd (SetValue ext (nodes m (?sto ! j)) (proposed ! j))"
      by simp
    with acc that show ?thesis by (simp add: SetValue_accept_Value)
  qed
  have other: "?h' a = nodes m a" if "a \<notin> set (take i ?sto)" for a
    using that by (rule assign_in_order_other)
  have after: "?h' (?sto ! j) = nodes m (?sto ! j)" if "i \<le> j" "j < length proposed" for j
  proof -
    have "?sto ! j \<notin> set (take i ?sto)"
    proof
      assume "?sto ! j \<in> set (take i ?sto)"
      then obtain k where k: "k < length (take i ?sto)" "take i ?sto ! k = ?sto ! j"
        by (auto simp: in_set_conv_nth)
      then have "k < i" "?sto ! k = ?sto ! j" by simp_all
      with d that len have "k = j" by (simp add: nth_eq_iff_index_eq)
      with \<open>k < i\<close> that show False by simp
    qed
    then show ?thesis by (rule other)
  qed
  from res before after other show ?thesis by auto
qed

text \<open>
  In the example model: \<open>mu\<close> keeps the proposed 3, \<open>theta\<close> keeps its 0.5.
\<close>

theorem Model_LogProb_rejected_frame_witness:
  "distinct (stochastic demo_model)
   \<and> length [Fin 3, Fin (3 / 2)] = length (stochastic demo_model)
   \<and> (1::nat) < length [Fin 3, Fin (3 / 2)]
   \<and> fst (SetValue demo_ext (nodes demo_model (stochastic demo_model ! 0))
            ([Fin 3, Fin (3 / 2)] ! 0)) = None
   \<and> fst (SetValue demo_ext (nodes demo_model (stochastic demo_model ! 1))
            ([Fin 3, Fin (3 / 2)] ! 1)) \<noteq> None
   \<and> (\<exists>m'. Model_LogProb demo_ext demo_model [Fin 3, Fin (3 / 2)] = Inr (NInf, m')
         \<and> RandVar_Value (nodes m' 0) = Fin 3
         \<and> RandVar_Value (nodes m' 1) = Fin (1 / 2)
         \<and> nodes m' 2 = nodes demo_model 2)"
  using Model_LogProb_rejected_frame[of demo_model "[Fin 3, Fin (3 / 2)]" 1 demo_ext]
  by (simp add: demo_model_def demo_ext_def Model_LogProb_def fgt_def)

section \<open>The Binomial factory\<close>

lemma negative_trials_reject:
  "x \<noteq> NaN \<Longrightarrow> flt N (Fin 0) \<Longrightarrow> flt (math_Round x) (Fin 0) \<or> fgt (math_Round x) N"
  by (cases x; cases N) (auto simp: fgt_def)

text \<open>
  \<^bold>\<open>C10\<close>, as amended. \<open>Model.Binomial\<close> panics on the trial count only when \<open>N == 0.0\<close>;
  its other panics are a name that is taken and a panic of \<open>p.Value()\<close>. For every negative
  \<open>N\<close>, a free name and a \<open>p\<close> whose value can be read, it constructs the node and appends it
  to the stochastic collection without error, and on that node every \<open>SetValue(x)\<close> with
  \<open>x\<close> other than \<open>NaN\<close> fails.
\<close>

theorem Model_Binomial_trials:
  "(feq N (Fin 0) \<longrightarrow> Model_Binomial m name N p = Inl (ZeroTrials N))
   \<and> ((\<exists>e. Model_Binomial m name N p = Inl e) \<longleftrightarrow>
        feq N (Fin 0) \<or> IsTaken m name \<or> (\<exists>e. Value (nodes m) p = Inl e))
   \<and> (flt N (Fin 0) \<and> \<not> IsTaken m name \<and> Value (nodes m) p = Inr pv \<longrightarrow>
        Model_Binomial m name N p =
          Inr (fresh m, m\<lparr>nodes := (nodes m)(fresh m := Binomial name (fmul N pv) N p),
                           fresh := Suc (fresh m), stochastic := stochastic m @ [fresh m]\<rparr>)
        \<and> (\<forall>x v. x \<noteq> NaN \<longrightarrow> fst (SetValue ext (Binomial name v N p) x) \<noteq> None))"
proof -
  have zero: "Model_Binomial m name N p = Inl (ZeroTrials N)" if "feq N (Fin 0)"
    using that by (simp add: Model_Binomial_def)
  have panics: "(\<exists>e. Model_Binomial m name N p = Inl e) \<longleftrightarrow>
        feq N (Fin 0) \<or> IsTaken m name \<or> (\<exists>e. Value (nodes m) p = Inl e)"
    by (auto simp: Model_Binomial_def NewBinomial_def split: sum.splits)
  have built: "Model_Binomial m name N p =
          Inr (fresh m, m\<lparr>nodes := (nodes m)(fresh m := Binomial name (fmul N pv) N p),
                           fresh := Suc (fresh m), stochastic := stochastic m @ [fresh m]\<rparr>)"
    if "flt N (Fin 0)" "\<not> IsTaken m name" "Value (nodes m) p = Inr pv"
  proof -
    from that(1) have "\<not> feq N (Fin 0)" by (cases N) auto
    with that(2,3) show ?thesis
      by (simp add: Model_Binomial_def NewBinomial_def add_stochastic_def Let_def)
  qed
  have rejects: "fst (SetValue ext (Binomial name v N p) x) \<noteq> None"
    if "flt N (Fin 0)" "x \<noteq> NaN" for x v
    using negative_trials_reject[OF that(2) that(1)] by (auto simp: Let_def)
  from zero panics built rejects show ?thesis by blast
qed

text \<open>
  In the example model: \<open>N = -1\<close> under the free name \<open>tails\<close> is registered at address 3
  and rejects 0; \<open>N = 0\<close> panics.
\<close>

theorem Model_Binomial_trials_witness:
  "flt (Fin (- 1)) (Fin 0) \<and> \<not> IsTaken demo_model ''tails''
   \<and> Value (nodes demo_model) (RandRef 1) = Inr (Fin (1 / 2))
   \<and> Model_Binomial demo_model ''tails'' (Fin (- 1)) (RandRef 1) =
       Inr (3, demo_model\<lparr>nodes := (nodes demo_model)
                 (3 := Binomial ''tails'' (Fin (- (1 / 2))) (Fin (- 1)) (RandRef 1)),
               fresh := 4, stochastic := [0, 1, 3]\<rparr>)
   \<and> fst (SetValue demo_ext (Binomial ''tails'' (Fin (- (1 / 2))) (Fin (- 1)) (RandRef 1)) (Fin 0)) \<noteq> None
   \<and> feq (Fin 0) (Fin 0)
   \<and> Model_Binomial demo_model ''tails'' (Fin 0) (RandRef 1) = Inl (ZeroTrials (Fin 0))"
  using Model_Binomial_trials[of "Fin (- 1)" demo_model "''tails''" "RandRef 1" "Fin (1 / 2)" demo_ext]
    Model_Binomial_trials[of "Fin 0" demo_model "''tails''" "RandRef 1" "Fin (1 / 2)" demo_ext]
  by (simp add: demo_model_def IsTaken_def round_half_away_def fgt_def Let_def)

text \<open>
  The claim as it was stated fails twice: with \<open>N = -1\<close> the factory panics all the same when
  the name is taken, and the node built for \<open>N = -1\<close> accepts \<open>NaN\<close>, on which both
  comparisons of its guard are false.
\<close>

theorem Model_Binomial_trials_counterexample:
  "\<not> feq (Fin (- 1)) (Fin 0)
   \<and> Model_Binomial demo_model ''heads'' (Fin (- 1)) (RandRef 1) = Inl (NameTaken ''heads'')
   \<and> SetValue demo_ext (Binomial ''tails'' (Fin (- (1 / 2))) (Fin (- 1)) (RandRef 1)) NaN
       = (None, Binomial ''tails'' NaN (Fin (- 1)) (RandRef 1))"
  by (simp add: demo_model_def IsTaken_def Model_Binomial_def NewBinomial_def fgt_def)

section \<open>The sampling procedures\<close>

lemma round_half_away_bounds:
  "0 \<le> r \<Longrightarrow> r \<le> real n - 1 \<Longrightarrow> 0 \<le> round_half_away r \<and> round_half_away r < int n"
  unfolding round_half_away_def by (simp add: floor_less_iff)

lemma draw_loc_bounds:
  assumes "0 < n" "fle (Fin 0) d" "fle d (Fin (real n - 1))"
  shows "0 \<le> draw_loc ext d \<and> draw_loc ext d < int n"
proof -
  from assms(2,3) obtain r where d: "d = Fin r" and r: "0 \<le> r" "r \<le> real n - 1"
    by (cases d) (auto simp: fle_def)
  from round_half_away_bounds[OF r] show ?thesis
    unfolding d draw_loc_def by simp
qed

lemma Posterior_assign_returns:
  "\<forall>v\<in>set vs. \<exists>xs. tr (Name (h v)) = Some xs \<and> 0 \<le> loc \<and> loc < int (length xs) \<Longrightarrow>
   \<exists>h'. Posterior_assign ext tr loc vs h = Inr h'"
proof (induction vs arbitrary: h)
  case Nil
  then show ?case by simp
next
  case (Cons v vs)
  from Cons.prems obtain xs where xs: "tr (Name (h v)) = Some xs" "0 \<le> loc" "loc < int (length xs)"
    by auto
  let ?h = "h(v := snd (SetValue ext (h v) (xs ! nat loc)))"
  have names: "Name (?h w) = Name (h w)" for w by (simp add: SetValue_Name)
  have "\<forall>w\<in>set vs. \<exists>ys. tr (Name (?h w)) = Some ys \<and> 0 \<le> loc \<and> loc < int (length ys)"
    using Cons.prems by (simp only: names) simp
  from Cons.IH[OF this] obtain h' where "Posterior_assign ext tr loc vs ?h = Inr h'" ..
  with xs show ?case by (simp add: Let_def del: fun_upd_apply)
qed

text \<open>
  \<^bold>\<open>C6\<close>, as amended. In \<open>SamplePosteriorPredictive\<close> each iteration rounds a draw of the
  continuous uniform distribution on \<open>[0, traceLength - 1]\<close>. For a trace length of at least
  1, every draw within these bounds gives an index in \<open>[0, traceLength - 1]\<close>, never
  \<open>traceLength\<close>, and reading the trace at it does not panic when every stochastic
  variable's sequence has that length.
\<close>

theorem posterior_index_in_bounds:
  "index_sampler (Fin (real n)) = distuv_Uniform (Fin 0) (Fin (real n - 1))
   \<and> (0 < n \<and> fle (Fin 0) d \<and> fle d (Fin (real n - 1)) \<longrightarrow>
        0 \<le> draw_loc ext d \<and> draw_loc ext d < int n
        \<and> ((\<forall>v\<in>set vs. \<exists>xs. tr (Name (h v)) = Some xs \<and> length xs = n) \<longrightarrow>
             (\<exists>h'. Posterior_assign ext tr (draw_loc ext d) vs h = Inr h')))"
proof -
  have s: "index_sampler (Fin (real n)) = distuv_Uniform (Fin 0) (Fin (real n - 1))"
    by (simp add: index_sampler_def fsub_def)
  have b: "0 \<le> draw_loc ext d \<and> draw_loc ext d < int n"
    if "0 < n" "fle (Fin 0) d" "fle d (Fin (real n - 1))"
    using that by (rule draw_loc_bounds)
  have p: "\<exists>h'. Posterior_assign ext tr (draw_loc ext d) vs h = Inr h'"
    if "0 < n" "fle (Fin 0) d" "fle d (Fin (real n - 1))"
      and "\<forall>v\<in>set vs. \<exists>xs. tr (Name (h v)) = Some xs \<and> length xs = n"
  proof (rule Posterior_assign_returns)
    from b[OF that(1-3)] that(4)
    show "\<forall>v\<in>set vs. \<exists>xs. tr (Name (h v)) = Some xs \<and> 0 \<le> draw_loc ext d
        \<and> draw_loc ext d < int (length xs)"
      by auto
  qed
  from s b p show ?thesis by blast
qed


text \<open>
  With a trace length of 4 and the draw 2.5, the index is 3 and the trace is read there.
\<close>

theorem posterior_index_in_bounds_witness:
  "(0::nat) < 4 \<and> fle (Fin 0) (Fin (5 / 2)) \<and> fle (Fin (5 / 2)) (Fin (real (4::nat) - 1))
   \<and> draw_loc demo_ext (Fin (5 / 2)) = 3
   \<and> [''mu'' \<mapsto> [Fin 0, Fin 1, Fin 2, Fin 3],
       ''theta'' \<mapsto> [Fin 0, Fin (1 / 4), Fin (1 / 2), Fin (3 / 4)]] (Name (nodes demo_model 0))
        = Some [Fin 0, Fin 1, Fin 2, Fin 3]
   \<and> [''mu'' \<mapsto> [Fin 0, Fin 1, Fin 2, Fin 3],
       ''theta'' \<mapsto> [Fin 0, Fin (1 / 4), Fin (1 / 2), Fin (3 / 4)]] (Name (nodes demo_model 1))
        = Some [Fin 0, Fin (1 / 4), Fin (1 / 2), Fin (3 / 4)]
   \<and> Posterior_assign demo_ext
        [''mu'' \<mapsto> [Fin 0, Fin 1, Fin 2, Fin 3],
         ''theta'' \<mapsto> [Fin 0, Fin (1 / 4), Fin (1 / 2), Fin (3 / 4)]]
        (draw_loc demo_ext (Fin (5 / 2))) [0, 1] (nodes demo_model)
      = Inr ((nodes demo_model)
          (0 := Normal ''mu'' (Fin 3) (Constant (Fin 0)) (Constant (Fin 1)),
           1 := Beta ''theta'' (Fin (3 / 4)) (Constant (Fin 1)) (Constant (Fin 1))))"
  using posterior_index_in_bounds[of 4 "Fin (5 / 2)" demo_ext "[0, 1]"
      "[''mu'' \<mapsto> [Fin 0, Fin 1, Fin 2, Fin 3],
        ''theta'' \<mapsto> [Fin 0, Fin (1 / 4), Fin (1 / 2), Fin (3 / 4)]]" "nodes demo_model"]
  by (simp add: demo_model_def draw_loc_def round_half_away_def fle_def fgt_def Let_def)

text \<open>
  The claim as it was stated fails: for a trace length of 4 the sampler's upper bound is 3,
  so the draw \<open>4 - 0.5\<close> is not one of its draws, and no draw within the bounds is rounded
  to the index 4.
\<close>

theorem posterior_index_in_bounds_counterexample:
  "index_sampler (Fin (real (4::nat))) = distuv_Uniform (Fin 0) (Fin 3)
   \<and> \<not> fle (Fin (4 - 1 / 2)) (Fin 3)
   \<and> \<not> (\<exists>d. fle (Fin 0) d \<and> fle d (Fin 3) \<and> draw_loc demo_ext d = 4)"
proof -
  have "draw_loc demo_ext d \<noteq> 4" if "fle (Fin 0) d" "fle d (Fin 3)" for d
    using draw_loc_bounds[of 4 d demo_ext] that by simp
  then show ?thesis by (auto simp: index_sampler_def fsub_def fle_def)
qed

subsection \<open>Rejected values\<close>



lemma with_value_Name [simp]: "Name (with_value n x) = Name n"
  by (cases n) auto

lemma with_value_reads_ok [simp]: "reads_ok (with_value n x) = reads_ok n"
  by (cases n) auto

lemma with_value_Value [simp]: "RandVar_Value (with_value n x) = x"
  by (cases n) auto



lemma with_value_node_dist [simp]: "node_dist h (with_value n x) = node_dist h n"
  by (cases n) auto

lemma with_value_accept [simp]:
  "fst (SetValue ext (with_value n x) v) = fst (SetValue ext n v)"
  by (cases n) (auto simp: Let_def)




























end
